theory Spec2Isabelle
  imports Main "HOL-Library.Sublist"
begin

section \<open>The URL validator\<close>

text \<open>
  \<^verbatim>\<open>is_valid_youtube_url\<close> applies \<^verbatim>\<open>re.match\<close> to the pattern
  \<^verbatim>\<open>^(https?://)?(www\.)?(youtube\.com|youtu\.?be)/.+$\<close>.
  The pattern is kept as data: a syntax tree over the constructs it uses, and a
  backtracking matcher that gives them the meaning of Python's \<^verbatim>\<open>re\<close> module with no
  flags set. Capturing groups only group; a run of literal characters is one \<open>Lit\<close>.
  The subject is a list of characters; the pattern tells a character from another only
  when it is one of the letters and signs it names, or the newline.
\<close>

datatype regex =
    Bol
  | Eol
  | Lit string
  | Dot
  | Opt regex
  | Many1 regex
  | Alt regex regex
  | Seq regex regex

definition newline :: char where
  "newline = CHR 0x0A"

text \<open>
  A matcher state is the number of characters consumed so far and the rest of the subject.
  \<open>rmatch r st\<close> lists every state in which a match of \<open>r\<close> begun at \<open>st\<close> can end, in the
  order in which the backtracking engine tries them (greedy first).
    \<^item> \<open>Bol\<close> (\<^verbatim>\<open>^\<close>) holds at the start of the subject only;
    \<^item> \<open>Eol\<close> (\<^verbatim>\<open>$\<close>) holds at the end of the subject and just before a newline that is
      the last character of the subject;
    \<^item> \<open>Dot\<close> (\<^verbatim>\<open>.\<close>) takes one character other than the newline;
    \<^item> \<open>Opt r\<close> (\<^verbatim>\<open>r?\<close>) tries \<open>r\<close> and then the empty match;
    \<^item> \<open>Many1 r\<close> (\<^verbatim>\<open>r+\<close>) iterates \<open>r\<close>, longest first. The iteration count is bounded
      by one more than the length of the rest of the subject, which no iteration that
      consumes a character can exceed.
\<close>

type_synonym mstate = "nat \<times> string"

fun iter_plus :: "nat \<Rightarrow> (mstate \<Rightarrow> mstate list) \<Rightarrow> mstate \<Rightarrow> mstate list" where
  "iter_plus 0 f st = []"
| "iter_plus (Suc k) f st = concat (map (\<lambda>st'. iter_plus k f st' @ [st']) (f st))"

fun rmatch :: "regex \<Rightarrow> mstate \<Rightarrow> mstate list" where
  "rmatch Bol (n, s) = (if n = 0 then [(n, s)] else [])"
| "rmatch Eol (n, s) = (if s = [] \<or> s = [newline] then [(n, s)] else [])"
| "rmatch (Lit l) (n, s) = (if prefix l s then [(n + length l, drop (length l) s)] else [])"
| "rmatch Dot (n, s) = (case s of [] \<Rightarrow> [] | c # cs \<Rightarrow> if c = newline then [] else [(Suc n, cs)])"
| "rmatch (Opt r) st = rmatch r st @ [st]"
| "rmatch (Many1 r) st = iter_plus (Suc (length (snd st))) (\<lambda>st'. rmatch r st') st"
| "rmatch (Alt r1 r2) st = rmatch r1 st @ rmatch r2 st"
| "rmatch (Seq r1 r2) st = concat (map (\<lambda>st'. rmatch r2 st') (rmatch r1 st))"

text \<open>\<^verbatim>\<open>re.match(pattern, s)\<close>: the first match anchored at position 0 (its end position), or \<open>None\<close>.\<close>

definition re_match :: "regex \<Rightarrow> string \<Rightarrow> nat option" where
  "re_match r s = (case rmatch r (0, s) of [] \<Rightarrow> None | st # _ \<Rightarrow> Some (fst st))"

definition scheme_re :: regex where
  "scheme_re = Opt (Seq (Lit ''http'') (Seq (Opt (Lit ''s'')) (Lit ''://'')))"

definition www_re :: regex where
  "www_re = Opt (Lit ''www.'')"

definition host_re :: regex where
  "host_re = Alt (Lit ''youtube.com'') (Seq (Lit ''youtu'') (Seq (Opt (Lit ''.'')) (Lit ''be'')))"

definition path_re :: regex where
  "path_re = Seq (Lit ''/'') (Seq (Many1 Dot) Eol)"

definition youtube_regex :: regex where
  "youtube_regex = Seq Bol (Seq scheme_re (Seq www_re (Seq host_re path_re)))"

definition is_valid_youtube_url :: "string \<Rightarrow> bool" where
  "is_valid_youtube_url url = (re_match youtube_regex url \<noteq> None)"

subsection \<open>The shape of a URL, in words\<close>

text \<open>
  \<open>shape hosts ok url\<close>: \<open>url\<close> is an optional \<^verbatim>\<open>http://\<close> or \<^verbatim>\<open>https://\<close>, an optional
  \<^verbatim>\<open>www.\<close>, one of \<open>hosts\<close>, a \<^verbatim>\<open>/\<close>, and a remainder accepted by \<open>ok\<close>.
\<close>

definition shape :: "string list \<Rightarrow> (string \<Rightarrow> bool) \<Rightarrow> string \<Rightarrow> bool" where
  "shape hosts ok url =
     (\<exists>scheme \<in> set ['''', ''http://'', ''https://''].
      \<exists>www \<in> set ['''', ''www.''].
      \<exists>host \<in> set hosts.
        prefix (scheme @ www @ host @ ''/'') url \<and>
        ok (drop (length (scheme @ www @ host @ ''/'')) url))"

text \<open>
  The shape as the specification words it: host exactly \<^verbatim>\<open>youtube.com\<close> or \<^verbatim>\<open>youtu.be\<close>,
  followed by \<^verbatim>\<open>/\<close> and a non-empty remainder.
\<close>

definition spec_shape :: "string \<Rightarrow> bool" where
  "spec_shape url = shape [''youtube.com'', ''youtu.be''] (\<lambda>rest. rest \<noteq> []) url"

text \<open>
  The remainder that \<^verbatim>\<open>.+$\<close> accepts: one or more characters none of which is a newline,
  optionally followed by a single final newline.
\<close>

definition remainder_ok :: "string \<Rightarrow> bool" where
  "remainder_ok s =
     (let body = (if s \<noteq> [] \<and> last s = newline then butlast s else s)
      in body \<noteq> [] \<and> newline \<notin> set body)"

text \<open>The host without any dot, \<^verbatim>\<open>youtube/...\<close>, which \<^verbatim>\<open>youtu\.?be\<close> also lets through.\<close>

definition dotless_host :: "string \<Rightarrow> bool" where
  "dotless_host url = shape [''youtube''] remainder_ok url"

section \<open>The world the orchestration runs in\<close>

text \<open>
  What Python raises. \<^verbatim>\<open>except Exception\<close> catches the instances of \<^verbatim>\<open>Exception\<close> and
  lets everything else derived from \<^verbatim>\<open>BaseException\<close> alone (\<^verbatim>\<open>KeyboardInterrupt\<close>,
  \<^verbatim>\<open>SystemExit\<close>, \<^verbatim>\<open>GeneratorExit\<close>). The string is what \<^verbatim>\<open>str(e)\<close> gives.
\<close>

datatype exn = Exception string | BaseException string

text \<open>
  The file system maps a directory entry to the text of the regular file there; a file
  holds the \<^verbatim>\<open>str\<close> written to it through the fixed \<^verbatim>\<open>utf-8\<close> codec. Several paths may
  name one entry (\<^verbatim>\<open>transcription.txt\<close> and \<^verbatim>\<open>./transcription.txt\<close>, or an absolute path):
  the operating system, below, says which entry a path names. Every entry is a regular
  file or a directory; symbolic and hard links are outside the model.
\<close>

type_synonym fs = "string \<rightharpoonup> string"

text \<open>The keyword arguments of \<^verbatim>\<open>model.transcribe\<close>, a dict built by insertion.\<close>

type_synonym options = "(string \<times> string) list"

text \<open>The triple \<^verbatim>\<open>(audio_path, title, thumbnail_url)\<close>; each component may be \<^verbatim>\<open>None\<close>.\<close>

type_synonym video_info = "string option \<times> string option \<times> string option"

text \<open>The four outputs \<^verbatim>\<open>(title, thumbnail, transcription, file)\<close> handed to the UI.\<close>

type_synonym outputs = "string option \<times> string option \<times> string \<times> string option"

text \<open>
  The code that is called but lives outside \<^verbatim>\<open>app.py\<close>: \<^verbatim>\<open>download_mp3_yt_dlp\<close> of the
  module \<^verbatim>\<open>download_video\<close>, \<^verbatim>\<open>whisper.load_model\<close> and the \<^verbatim>\<open>transcribe\<close> method of a
  loaded model (\<open>'m\<close> is the type of model handles). Each either returns or raises, and
  each may read and change the file system.

  With them, what the operating system decides when \<^verbatim>\<open>open\<close>, \<^verbatim>\<open>f.write\<close>,
  \<^verbatim>\<open>os.path.exists\<close> and \<^verbatim>\<open>os.remove\<close> are called:
    \<^item> \<open>dir_entry path\<close> is the directory entry that \<open>path\<close> names, so that two paths name
      the same file exactly when their entries are equal;
    \<^item> \<open>is_dir entry\<close> holds when the entry is a directory;
    \<^item> \<open>open_error entry\<close> is the message of the \<^verbatim>\<open>OSError\<close> with which opening the entry
      for writing is refused (\<^verbatim>\<open>PermissionError\<close>, a read-only volume), if it is;
    \<^item> \<open>write_error entry text\<close> is the message of the exception with which writing \<open>text\<close>
      to the open file fails, if it does: a \<^verbatim>\<open>UnicodeEncodeError\<close> for a text that
      \<^verbatim>\<open>utf-8\<close> cannot encode (a lone surrogate), an \<^verbatim>\<open>OSError\<close> for a full disk;
    \<^item> \<open>remove_error entry\<close> is the message of the \<^verbatim>\<open>OSError\<close> with which removing the
      entry is refused (\<^verbatim>\<open>PermissionError\<close>), if it is.
  These do not change while the process runs.
\<close>

record 'm collaborators =
  download_mp3_yt_dlp :: "string \<Rightarrow> fs \<Rightarrow> (exn + video_info) \<times> fs"
  load_model :: "string \<Rightarrow> fs \<Rightarrow> (exn + 'm) \<times> fs"
  model_transcribe :: "'m \<Rightarrow> string \<Rightarrow> options \<Rightarrow> fs \<Rightarrow> (exn + (string \<rightharpoonup> string)) \<times> fs"
  dir_entry :: "string \<Rightarrow> string"
  is_dir :: "string \<Rightarrow> bool"
  open_error :: "string \<Rightarrow> string option"
  write_error :: "string \<Rightarrow> string \<Rightarrow> string option"
  remove_error :: "string \<Rightarrow> string option"

text \<open>
  The state of the process: the global dict \<^verbatim>\<open>models\<close>, the files, what has been printed,
  what has been reported to the progress callback, and a record of every call made to a
  collaborator (the argument list of each call, oldest first).
\<close>

record 'm world =
  models :: "string \<rightharpoonup> 'm"
  files :: fs
  stdout :: "string list"
  progress_log :: "(nat \<times> string) list"
  download_calls :: "string list"
  load_calls :: "string list"
  transcribe_calls :: "('m \<times> string \<times> options) list"

text \<open>Python's truth value of a value that is \<^verbatim>\<open>None\<close> or a \<^verbatim>\<open>str\<close>.\<close>

definition truthy :: "string option \<Rightarrow> bool" where
  "truthy v = (case v of None \<Rightarrow> False | Some s \<Rightarrow> s \<noteq> [])"

text \<open>\<^verbatim>\<open>print(line)\<close> and \<^verbatim>\<open>progress(percent, description)\<close>.\<close>

definition print :: "string \<Rightarrow> 'm world \<Rightarrow> 'm world" where
  "print line w = w\<lparr>stdout := stdout w @ [line]\<rparr>"

definition progress :: "nat \<Rightarrow> string \<Rightarrow> 'm world \<Rightarrow> 'm world" where
  "progress percent description w = w\<lparr>progress_log := progress_log w @ [(percent, description)]\<rparr>"

section \<open>The functions of \<^verbatim>\<open>app.py\<close>\<close>

text \<open>The world once the call \<^verbatim>\<open>download_mp3_yt_dlp(youtube_url)\<close> has come back, leaving the files \<open>fs'\<close>.\<close>

definition after_download :: "string \<Rightarrow> fs \<Rightarrow> 'm world \<Rightarrow> 'm world" where
  "after_download youtube_url fs' w =
     w\<lparr>files := fs', download_calls := download_calls w @ [youtube_url]\<rparr>"

definition download_video_info ::
  "'m collaborators \<Rightarrow> string \<Rightarrow> 'm world \<Rightarrow> (exn + video_info) \<times> 'm world" where
  "download_video_info c youtube_url w =
     (if \<not> is_valid_youtube_url youtube_url then
        (Inr (None, Some ''Invalid YouTube URL.'', None), w)
      else
        (case download_mp3_yt_dlp c youtube_url (files w) of
           (r, fs') \<Rightarrow>
             let w1 = after_download youtube_url fs' w in
             (case r of
                Inr (audio_path, title, thumbnail_url) \<Rightarrow>
                  if \<not> truthy audio_path then
                    (Inr (None, Some ''Failed to download audio.'', None), w1)
                  else (Inr (audio_path, title, thumbnail_url), w1)
              | Inl (Exception e) \<Rightarrow>
                  (Inr (None, Some ''An error occurred while downloading the video.'', None),
                   print (''Error downloading video info: '' @ e) w1)
              | Inl (BaseException e) \<Rightarrow> (Inl (BaseException e), w1))))"

text \<open>
  Lines 62 to 64: \<^verbatim>\<open>if model_size not in models: models[model_size] = whisper.load_model(model_size)\<close>
  and then \<^verbatim>\<open>model = models[model_size]\<close>.
\<close>

definition cached_model ::
  "'m collaborators \<Rightarrow> string \<Rightarrow> 'm world \<Rightarrow> (exn + 'm) \<times> 'm world" where
  "cached_model c model_size w =
     (case models w model_size of
        Some model \<Rightarrow> (Inr model, w)
      | None \<Rightarrow>
          (case load_model c model_size (files w) of
             (r, fs') \<Rightarrow>
               let w1 = w\<lparr>files := fs', load_calls := load_calls w @ [model_size]\<rparr> in
               (case r of
                  Inl x \<Rightarrow> (Inl x, w1)
                | Inr model \<Rightarrow> (Inr model, w1\<lparr>models := (models w1)(model_size \<mapsto> model)\<rparr>))))"

text \<open>Lines 66 to 68: \<^verbatim>\<open>options = {}\<close>, and \<^verbatim>\<open>options['language'] = language\<close> if \<^verbatim>\<open>language\<close> is true.\<close>

definition language_options :: "string option \<Rightarrow> options" where
  "language_options language =
     (case language of
        None \<Rightarrow> []
      | Some l \<Rightarrow> if truthy (Some l) then [(''language'', l)] else [])"

text \<open>What \<^verbatim>\<open>str\<close> gives for the \<^verbatim>\<open>KeyError\<close> of a result without the key \<^verbatim>\<open>text\<close>.\<close>

definition key_error_text :: string where
  "key_error_text = [CHR 0x27] @ ''text'' @ [CHR 0x27]"

text \<open>The body of the \<^verbatim>\<open>try\<close> of \<^verbatim>\<open>transcribe_audio\<close>.\<close>

definition transcribe_audio_try ::
  "'m collaborators \<Rightarrow> string \<Rightarrow> string \<Rightarrow> string option \<Rightarrow> 'm world \<Rightarrow> (exn + string) \<times> 'm world" where
  "transcribe_audio_try c audio_path model_size language w =
     (case cached_model c model_size w of
        (Inl x, w1) \<Rightarrow> (Inl x, w1)
      | (Inr model, w1) \<Rightarrow>
          let options = language_options language in
          (case model_transcribe c model audio_path options (files w1) of
             (r, fs') \<Rightarrow>
               let w2 = w1\<lparr>files := fs',
                          transcribe_calls := transcribe_calls w1 @ [(model, audio_path, options)]\<rparr> in
               (case r of
                  Inl x \<Rightarrow> (Inl x, w2)
                | Inr result \<Rightarrow>
                    (case result ''text'' of
                       None \<Rightarrow> (Inl (Exception key_error_text), w2)
                     | Some text \<Rightarrow> (Inr text, w2)))))"

definition transcribe_audio ::
  "'m collaborators \<Rightarrow> string \<Rightarrow> string \<Rightarrow> string option \<Rightarrow> 'm world \<Rightarrow> (exn + string) \<times> 'm world" where
  "transcribe_audio c audio_path model_size language w =
     (case transcribe_audio_try c audio_path model_size language w of
        (Inr text, w1) \<Rightarrow> (Inr text, w1)
      | (Inl (Exception e), w1) \<Rightarrow>
          (Inr ''An error occurred during transcription.'',
           print (''Error during transcription: '' @ e) w1)
      | (Inl (BaseException e), w1) \<Rightarrow> (Inl (BaseException e), w1))"

text \<open>
  What \<^verbatim>\<open>str\<close> gives for the \<^verbatim>\<open>IsADirectoryError\<close>, the \<^verbatim>\<open>FileNotFoundError\<close> and the
  \<^verbatim>\<open>PermissionError\<close> that name a path.
\<close>

definition permission_denied :: "string \<Rightarrow> string" where
  "permission_denied path = ''[Errno 13] Permission denied: '' @ [CHR 0x27] @ path @ [CHR 0x27]"

definition is_a_directory_error :: "string \<Rightarrow> exn" where
  "is_a_directory_error path =
     Exception (''[Errno 21] Is a directory: '' @ [CHR 0x27] @ path @ [CHR 0x27])"

definition file_not_found_error :: "string \<Rightarrow> exn" where
  "file_not_found_error path =
     Exception (''[Errno 2] No such file or directory: '' @ [CHR 0x27] @ path @ [CHR 0x27])"

text \<open>
  Lines 89 and 90, \<^verbatim>\<open>with open(path, "w", encoding="utf-8") as f: f.write(text)\<close>. Opening
  raises for a directory and when the system refuses; otherwise it creates the file or
  truncates it. The write then either raises, leaving the file truncated, or leaves the
  file holding the text. Nothing around these lines catches what they raise.
\<close>

definition write_file ::
  "'m collaborators \<Rightarrow> string \<Rightarrow> string \<Rightarrow> 'm world \<Rightarrow> (exn + unit) \<times> 'm world" where
  "write_file c path text w =
     (let entry = dir_entry c path in
      if is_dir c entry then (Inl (is_a_directory_error path), w)
      else
        (case open_error c entry of
           Some e \<Rightarrow> (Inl (Exception e), w)
         | None \<Rightarrow>
             (case write_error c entry text of
                Some e \<Rightarrow> (Inl (Exception e), w\<lparr>files := (files w)(entry \<mapsto> [])\<rparr>)
              | None \<Rightarrow> (Inr (), w\<lparr>files := (files w)(entry \<mapsto> text)\<rparr>))))"

text \<open>\<^verbatim>\<open>os.path.exists(path)\<close>: true of a directory and of a regular file.\<close>

definition path_exists :: "'m collaborators \<Rightarrow> string \<Rightarrow> 'm world \<Rightarrow> bool" where
  "path_exists c path w =
     (is_dir c (dir_entry c path) \<or> dir_entry c path \<in> dom (files w))"

text \<open>
  \<^verbatim>\<open>os.remove(path)\<close>: raises for a directory, for a path where nothing is, and when the
  system refuses; otherwise the entry is gone, under every path that names it.
\<close>

definition remove_file ::
  "'m collaborators \<Rightarrow> string \<Rightarrow> 'm world \<Rightarrow> (exn + unit) \<times> 'm world" where
  "remove_file c path w =
     (let entry = dir_entry c path in
      if is_dir c entry then (Inl (is_a_directory_error path), w)
      else if files w entry = None then (Inl (file_not_found_error path), w)
      else
        (case remove_error c entry of
           Some e \<Rightarrow> (Inl (Exception e), w)
         | None \<Rightarrow> (Inr (), w\<lparr>files := (files w)(entry := None)\<rparr>)))"

text \<open>
  Lines 87 to 94 of \<^verbatim>\<open>get_video_info_and_transcribe\<close>: the transcription is saved to
  \<^verbatim>\<open>transcription.txt\<close>, and then the audio file is removed if it exists. The value is the
  path of the file written.
\<close>

definition save_and_clean_up ::
  "'m collaborators \<Rightarrow> string \<Rightarrow> string \<Rightarrow> 'm world \<Rightarrow> (exn + string) \<times> 'm world" where
  "save_and_clean_up c audio_path transcription w =
     (let transcription_file = ''transcription.txt'' in
      case write_file c transcription_file transcription w of
        (Inl x, w1) \<Rightarrow> (Inl x, w1)
      | (Inr _, w1) \<Rightarrow>
          if path_exists c audio_path w1 then
            (case remove_file c audio_path w1 of
               (Inl x, w2) \<Rightarrow> (Inl x, w2)
             | (Inr _, w2) \<Rightarrow> (Inr transcription_file, w2))
          else (Inr transcription_file, w1))"

definition get_video_info_and_transcribe ::
  "'m collaborators \<Rightarrow> string \<Rightarrow> string \<Rightarrow> string option \<Rightarrow> 'm world \<Rightarrow> (exn + outputs) \<times> 'm world" where
  "get_video_info_and_transcribe c youtube_url model_size language w =
     (case download_video_info c youtube_url (progress 0 ''Validating URL...'' w) of
        (Inl x, w1) \<Rightarrow> (Inl x, w1)
      | (Inr (audio_path, title, thumbnail_url), w1) \<Rightarrow>
          (case audio_path of
             None \<Rightarrow> (Inr (title, None, '''', None), w1)
           | Some path \<Rightarrow>
               if \<not> truthy audio_path then (Inr (title, None, '''', None), w1)
               else
                 (case transcribe_audio c path model_size language
                         (progress 50 ''Transcribing audio...'' w1) of
                    (Inl x, w2) \<Rightarrow> (Inl x, w2)
                  | (Inr transcription, w2) \<Rightarrow>
                      (case save_and_clean_up c path transcription w2 of
                         (Inl x, w3) \<Rightarrow> (Inl x, w3)
                       | (Inr transcription_file, w3) \<Rightarrow>
                           (Inr (title, thumbnail_url, transcription, Some transcription_file),
                            progress 100 ''Done'' w3)))))"

text \<open>
  The conditions under which the two file operations go through: the file can be opened
  and the text written, and the audio file, if it is there, can be removed.
\<close>

definition writable :: "'m collaborators \<Rightarrow> string \<Rightarrow> string \<Rightarrow> bool" where
  "writable c path text \<longleftrightarrow>
     \<not> is_dir c (dir_entry c path) \<and> open_error c (dir_entry c path) = None \<and>
     write_error c (dir_entry c path) text = None"

definition removable :: "'m collaborators \<Rightarrow> string \<Rightarrow> bool" where
  "removable c path \<longleftrightarrow>
     \<not> is_dir c (dir_entry c path) \<and> remove_error c (dir_entry c path) = None"

section \<open>Runs of several calls\<close>

text \<open>
  A sequence of calls \<^verbatim>\<open>transcribe_audio(audio_path, model_size, language)\<close>, one after the
  other in the same process, whatever each of them returns or raises.
\<close>

fun transcribe_many ::
  "'m collaborators \<Rightarrow> (string \<times> string \<times> string option) list \<Rightarrow> 'm world \<Rightarrow> 'm world" where
  "transcribe_many c [] w = w"
| "transcribe_many c ((audio_path, model_size, language) # calls) w =
     transcribe_many c calls (snd (transcribe_audio c audio_path model_size language w))"

text \<open>
  Deterministic collaborators: what each returns or raises depends on its arguments only,
  not on the files it finds.
\<close>

definition deterministic :: "'m collaborators \<Rightarrow> bool" where
  "deterministic c \<longleftrightarrow>
     (\<forall>url f f'. fst (download_mp3_yt_dlp c url f) = fst (download_mp3_yt_dlp c url f')) \<and>
     (\<forall>size f f'. fst (load_model c size f) = fst (load_model c size f')) \<and>
     (\<forall>m p opts f f'. fst (model_transcribe c m p opts f) = fst (model_transcribe c m p opts f'))"

text \<open>The download does not itself create, change or remove the output file.\<close>

definition leaves_output_file :: "'m collaborators \<Rightarrow> bool" where
  "leaves_output_file c \<longleftrightarrow>
     (\<forall>url f. snd (download_mp3_yt_dlp c url f) (dir_entry c ''transcription.txt'')
                = f (dir_entry c ''transcription.txt''))"

section \<open>Concrete collaborators and worlds\<close>

text \<open>An empty process: nothing cached, no files, nothing printed, reported or called.\<close>

definition w0 :: "nat world" where
  "w0 = \<lparr>models = Map.empty, files = Map.empty, stdout = [], progress_log = [],
         download_calls = [], load_calls = [], transcribe_calls = []\<rparr>"

text \<open>
  \<open>stub path\<close>: the download leaves an audio file at \<open>path\<close> and returns it with a title and
  a thumbnail; the loader returns model 1; the model transcribes everything as \<^verbatim>\<open>hello\<close>.
  Every path names an entry of its own, nothing is a directory, and the system refuses
  nothing.
\<close>

definition stub :: "string \<Rightarrow> nat collaborators" where
  "stub path =
     \<lparr>download_mp3_yt_dlp = (\<lambda>url f. (Inr (Some path, Some ''Title'', Some ''thumb.jpg''), f(path \<mapsto> ''audio''))),
      load_model = (\<lambda>size f. (Inr 1, f)),
      model_transcribe = (\<lambda>m p opts f. (Inr [''text'' \<mapsto> ''hello''], f)),
      dir_entry = (\<lambda>p. p),
      is_dir = (\<lambda>entry. False),
      open_error = (\<lambda>entry. None),
      write_error = (\<lambda>entry text. None),
      remove_error = (\<lambda>entry. None)\<rparr>"

text \<open>The same with a download that raises, a loader that raises, and a model that raises.\<close>

definition stub_download_raises :: "nat collaborators" where
  "stub_download_raises = (stub ''audio.mp3'')
     \<lparr>download_mp3_yt_dlp := (\<lambda>url f. (Inl (Exception ''network down''), f))\<rparr>"

definition stub_load_raises :: "nat collaborators" where
  "stub_load_raises = (stub ''audio.mp3'')
     \<lparr>load_model := (\<lambda>size f. (Inl (Exception ''no weights''), f))\<rparr>"



text \<open>
  A download that returns \<^verbatim>\<open>./transcription.txt\<close>, another path to the entry
  \<^verbatim>\<open>transcription.txt\<close>, and leaves the audio there.
\<close>

definition stub_alias :: "nat collaborators" where
  "stub_alias = (stub ''./transcription.txt'')
     \<lparr>download_mp3_yt_dlp :=
        (\<lambda>url f. (Inr (Some ''./transcription.txt'', Some ''Title'', Some ''thumb.jpg''),
                  f(''transcription.txt'' \<mapsto> ''audio''))),
      dir_entry := (\<lambda>p. if p = ''./transcription.txt'' then ''transcription.txt'' else p)\<rparr>"

text \<open>
  A system where \<^verbatim>\<open>transcription.txt\<close> is a directory, one whose disk is full, and one
  that refuses to remove \<^verbatim>\<open>audio.mp3\<close>.
\<close>

definition stub_output_is_dir :: "nat collaborators" where
  "stub_output_is_dir = (stub ''audio.mp3'')\<lparr>is_dir := (\<lambda>entry. entry = ''transcription.txt'')\<rparr>"

definition stub_disk_full :: "nat collaborators" where
  "stub_disk_full = (stub ''audio.mp3'')
     \<lparr>write_error := (\<lambda>entry text. Some ''[Errno 28] No space left on device'')\<rparr>"

definition stub_unremovable :: "nat collaborators" where
  "stub_unremovable = (stub ''audio.mp3'')
     \<lparr>remove_error := (\<lambda>entry. if entry = ''audio.mp3''
                                 then Some (permission_denied ''audio.mp3'') else None)\<rparr>"

text \<open>
  A download that leaves the audio file only when \<^verbatim>\<open>transcription.txt\<close> is there already,
  on a system that refuses to remove \<^verbatim>\<open>audio.mp3\<close>.
\<close>

definition stub_audio_on_rerun :: "nat collaborators" where
  "stub_audio_on_rerun = stub_unremovable
     \<lparr>download_mp3_yt_dlp :=
        (\<lambda>url f. (Inr (Some ''audio.mp3'', Some ''Title'', Some ''thumb.jpg''),
                  if f ''transcription.txt'' = None then f else f(''audio.mp3'' \<mapsto> ''audio'')))\<rparr>"

definition good_url :: string where
  "good_url = ''https://www.youtube.com/watch?v=abc''"

section \<open>What the pattern accepts\<close>

lemma ok_Seq_Opt:
  "rmatch (Seq (Opt a) r) st \<noteq> [] \<longleftrightarrow> rmatch (Seq a r) st \<noteq> [] \<or> rmatch r st \<noteq> []"
  by auto

lemma ok_Seq_Alt:
  "rmatch (Seq (Alt a b) r) st \<noteq> [] \<longleftrightarrow> rmatch (Seq a r) st \<noteq> [] \<or> rmatch (Seq b r) st \<noteq> []"
  by auto

lemma ok_Seq_Seq:
  "rmatch (Seq (Seq a b) r) st \<noteq> [] \<longleftrightarrow> rmatch (Seq a (Seq b r)) st \<noteq> []"
  by auto

lemma ok_Seq_Bol:
  "rmatch (Seq Bol r) (0, s) \<noteq> [] \<longleftrightarrow> rmatch r (0, s) \<noteq> []"
  by simp

lemma iter_plus_Dot:
  "set (iter_plus k (\<lambda>st'. rmatch Dot st') (n, s)) =
     {(n + j, drop j s) | j. 1 \<le> j \<and> j \<le> k \<and> j \<le> length s \<and> newline \<notin> set (take j s)}"
proof (induction k arbitrary: n s)
  case 0
  then show ?case by simp
next
  case (Suc k)
  show ?case
  proof (cases s)
    case Nil
    then show ?thesis by auto
  next
    case (Cons c cs)
    show ?thesis
    proof (cases "c = newline")
      case True
      have "\<And>j. 1 \<le> j \<Longrightarrow> newline \<in> set (take j (c # cs))"
        using True by (case_tac j) auto
      with True Cons show ?thesis by auto
    next
      case False
      let ?A = "{(Suc n + j, drop j cs) | j. 1 \<le> j \<and> j \<le> k \<and> j \<le> length cs \<and> newline \<notin> set (take j cs)}"
      let ?B = "{(n + j, drop j (c # cs)) | j. 1 \<le> j \<and> j \<le> Suc k \<and> j \<le> length (c # cs) \<and> newline \<notin> set (take j (c # cs))}"
      have lhs: "set (iter_plus (Suc k) (\<lambda>st'. rmatch Dot st') (n, s)) = ?A \<union> {(Suc n, cs)}"
        using False Cons by (simp add: Suc.IH)
      have "?A \<union> {(Suc n, cs)} = ?B"
      proof (intro set_eqI iffI)
        fix x assume "x \<in> ?A \<union> {(Suc n, cs)}"
        then consider (a) j where "x = (Suc n + j, drop j cs)" "1 \<le> j" "j \<le> k" "j \<le> length cs" "newline \<notin> set (take j cs)"
          | (b) "x = (Suc n, cs)" by auto
        then show "x \<in> ?B"
        proof cases
          case a
          then show ?thesis using False by (intro CollectI exI[of _ "Suc j"]) simp
        next
          case b
          then show ?thesis using False by (intro CollectI exI[of _ "1"]) simp
        qed
      next
        fix x assume "x \<in> ?B"
        then obtain j where j: "x = (n + j, drop j (c # cs))" "1 \<le> j" "j \<le> Suc k"
          "j \<le> length (c # cs)" "newline \<notin> set (take j (c # cs))" by auto
        then obtain i where i: "j = Suc i" by (cases j) auto
        show "x \<in> ?A \<union> {(Suc n, cs)}"
        proof (cases i)
          case 0
          with i j show ?thesis by simp
        next
          case (Suc i')
          with i j have "x \<in> ?A" by (intro CollectI exI[of _ i]) simp
          then show ?thesis by simp
        qed
      qed
      with lhs Cons show ?thesis by simp
    qed
  qed
qed

lemma remainder_ok_iff:
  "remainder_ok s \<longleftrightarrow>
     (\<exists>j. 1 \<le> j \<and> j \<le> length s \<and> newline \<notin> set (take j s) \<and> (drop j s = [] \<or> drop j s = [newline]))"
  (is "?L \<longleftrightarrow> ?R")
proof
  assume L: ?L
  show ?R
  proof (cases "s \<noteq> [] \<and> last s = newline")
    case True
    with L have b: "butlast s \<noteq> []" "newline \<notin> set (butlast s)"
      by (simp_all add: remainder_ok_def Let_def)
    from True have s: "s = butlast s @ [newline]"
      by (metis append_butlast_last_id)
    have "drop (length (butlast s)) s = [newline]"
      by (subst s) simp
    moreover have "take (length (butlast s)) s = butlast s"
      by (subst s) simp
    moreover have "1 \<le> length (butlast s)" using b(1) by (cases "butlast s") auto
    ultimately show ?thesis using b(2) by (intro exI[of _ "length (butlast s)"]) simp
  next
    case False
    with L have "s \<noteq> []" "newline \<notin> set s"
      by (auto simp add: remainder_ok_def Let_def split: if_splits)
    then show ?thesis by (intro exI[of _ "length s"]) (cases s, auto)
  qed
next
  assume ?R
  then obtain j where j: "1 \<le> j" "j \<le> length s" "newline \<notin> set (take j s)"
    "drop j s = [] \<or> drop j s = [newline]" by blast
  from j(4) show ?L
  proof
    assume "drop j s = []"
    with j have "take j s = s" "s \<noteq> []" by auto
    with j(3) have "newline \<notin> set s" by simp
    moreover from this \<open>s \<noteq> []\<close> have "last s \<noteq> newline" using last_in_set by metis
    ultimately show ?L using \<open>s \<noteq> []\<close> by (simp add: remainder_ok_def Let_def)
  next
    assume d: "drop j s = [newline]"
    have s: "s = take j s @ [newline]" using d append_take_drop_id[of j s] by simp
    then have "last s = newline" "butlast s = take j s" "s \<noteq> []"
      by (metis last_snoc, metis butlast_snoc, metis snoc_eq_iff_butlast)
    moreover have "take j s \<noteq> []" using j(1,2) by (cases s) auto
    ultimately show ?L using j(3) by (simp add: remainder_ok_def Let_def)
  qed
qed

lemma ok_Eol: "rmatch Eol st \<noteq> [] \<longleftrightarrow> snd st = [] \<or> snd st = [newline]"
  by (cases st) simp

lemma ok_tail:
  "rmatch (Seq (Many1 Dot) Eol) (n, s) \<noteq> [] \<longleftrightarrow> remainder_ok s"
proof -
  have "rmatch (Seq (Many1 Dot) Eol) (n, s) \<noteq> [] \<longleftrightarrow>
        (\<exists>st \<in> set (iter_plus (Suc (length s)) (\<lambda>st'. rmatch Dot st') (n, s)). rmatch Eol st \<noteq> [])"
    by simp
  also have "\<dots> \<longleftrightarrow> (\<exists>j. 1 \<le> j \<and> j \<le> length s \<and> newline \<notin> set (take j s) \<and> (drop j s = [] \<or> drop j s = [newline]))"
    unfolding iter_plus_Dot ok_Eol by fastforce
  finally show ?thesis by (simp add: remainder_ok_iff)
qed

lemma ok_start: "(re_match r url \<noteq> None) = (rmatch r (0, url) \<noteq> [])"
  by (simp add: re_match_def split: list.splits)

lemma ok_Seq_Lit_ex:
  "rmatch (Seq (Lit l) r) (n, s) \<noteq> [] \<longleftrightarrow> (\<exists>t. s = l @ t \<and> rmatch r (n + length l, t) \<noteq> [])"
  by (auto simp: prefix_def)

lemma prefix_drop_ex: "(prefix p s \<and> Q (drop (length p) s)) = (\<exists>t. s = p @ t \<and> Q t)"
  by (auto simp: prefix_def)

lemma shape_ex:
  "shape hosts ok url \<longleftrightarrow>
     (\<exists>scheme \<in> set ['''', ''http://'', ''https://''].
      \<exists>www \<in> set ['''', ''www.''].
      \<exists>host \<in> set hosts.
      \<exists>rest. url = scheme @ www @ host @ ''/'' @ rest \<and> ok rest)"
  unfolding shape_def prefix_drop_ex by simp

lemma ok_path:
  "rmatch path_re (n, s) \<noteq> [] \<longleftrightarrow> (\<exists>rest. s = ''/'' @ rest \<and> remainder_ok rest)"
  unfolding path_re_def by (simp only: ok_Seq_Lit_ex ok_tail)

lemma ok_host:
  assumes "\<And>n t. rmatch r (n, t) \<noteq> [] \<longleftrightarrow> P t"
  shows "rmatch (Seq host_re r) (n, s) \<noteq> [] \<longleftrightarrow>
     (\<exists>host \<in> set [''youtube.com'', ''youtube'', ''youtu.be'']. \<exists>t. s = host @ t \<and> P t)"
proof -
  have "rmatch (Seq host_re r) (n, s) \<noteq> [] \<longleftrightarrow>
     (\<exists>t. s = ''youtube.com'' @ t \<and> P t) \<or>
     (\<exists>t. s = ''youtu'' @ t \<and>
        ((\<exists>ta. t = ''.'' @ ta \<and> (\<exists>tb. ta = ''be'' @ tb \<and> P tb)) \<or>
         (\<exists>tb. t = ''be'' @ tb \<and> P tb)))"
    unfolding host_re_def
    by (simp only: ok_Seq_Lit_ex ok_Seq_Opt ok_Seq_Alt ok_Seq_Seq assms)
  also have "\<dots> \<longleftrightarrow>
     (\<exists>host \<in> set [''youtube.com'', ''youtube'', ''youtu.be'']. \<exists>t. s = host @ t \<and> P t)"
    by auto
  finally show ?thesis .
qed

lemma ok_www:
  assumes "\<And>n t. rmatch r (n, t) \<noteq> [] \<longleftrightarrow> P t"
  shows "rmatch (Seq www_re r) (n, s) \<noteq> [] \<longleftrightarrow>
     (\<exists>www \<in> set ['''', ''www.'']. \<exists>t. s = www @ t \<and> P t)"
proof -
  have "rmatch (Seq www_re r) (n, s) \<noteq> [] \<longleftrightarrow> (\<exists>t. s = ''www.'' @ t \<and> P t) \<or> P s"
    unfolding www_re_def by (simp only: ok_Seq_Lit_ex ok_Seq_Opt assms)
  also have "\<dots> \<longleftrightarrow> (\<exists>www \<in> set ['''', ''www.'']. \<exists>t. s = www @ t \<and> P t)"
    by auto
  finally show ?thesis .
qed

lemma ok_scheme:
  assumes "\<And>n t. rmatch r (n, t) \<noteq> [] \<longleftrightarrow> P t"
  shows "rmatch (Seq scheme_re r) (n, s) \<noteq> [] \<longleftrightarrow>
     (\<exists>scheme \<in> set ['''', ''http://'', ''https://'']. \<exists>t. s = scheme @ t \<and> P t)"
proof -
  have "rmatch (Seq scheme_re r) (n, s) \<noteq> [] \<longleftrightarrow>
     (\<exists>t. s = ''http'' @ t \<and>
        ((\<exists>ta. t = ''s'' @ ta \<and> (\<exists>tb. ta = ''://'' @ tb \<and> P tb)) \<or>
         (\<exists>tb. t = ''://'' @ tb \<and> P tb))) \<or>
     P s"
    unfolding scheme_re_def by (simp only: ok_Seq_Lit_ex ok_Seq_Opt ok_Seq_Seq assms)
  also have "\<dots> \<longleftrightarrow>
     (\<exists>scheme \<in> set ['''', ''http://'', ''https://'']. \<exists>t. s = scheme @ t \<and> P t)"
    by auto
  finally show ?thesis .
qed

lemma nested_segments:
  "(\<exists>a \<in> A. \<exists>t. url = a @ t \<and> (\<exists>b \<in> B. \<exists>ta. t = b @ ta \<and>
      (\<exists>c \<in> C. \<exists>tb. ta = c @ tb \<and> (\<exists>rest. tb = d @ rest \<and> P rest)))) \<longleftrightarrow>
   (\<exists>a \<in> A. \<exists>b \<in> B. \<exists>c \<in> C. \<exists>rest. url = a @ b @ c @ d @ rest \<and> P rest)"
  by blast

lemma valid_iff:
  "is_valid_youtube_url url \<longleftrightarrow>
     shape [''youtube.com'', ''youtube'', ''youtu.be''] remainder_ok url"
proof -
  have "is_valid_youtube_url url \<longleftrightarrow>
          rmatch (Seq scheme_re (Seq www_re (Seq host_re path_re))) (0, url) \<noteq> []"
    unfolding is_valid_youtube_url_def ok_start youtube_regex_def by (simp only: ok_Seq_Bol)
  also have "\<dots> \<longleftrightarrow>
     (\<exists>scheme \<in> set ['''', ''http://'', ''https://'']. \<exists>t. url = scheme @ t \<and>
        (\<exists>www \<in> set ['''', ''www.'']. \<exists>ta. t = www @ ta \<and>
           (\<exists>host \<in> set [''youtube.com'', ''youtube'', ''youtu.be'']. \<exists>tb. ta = host @ tb \<and>
              (\<exists>rest. tb = ''/'' @ rest \<and> remainder_ok rest))))"
    by (rule ok_scheme, rule ok_www, rule ok_host, rule ok_path)
  also have "\<dots> \<longleftrightarrow> shape [''youtube.com'', ''youtube'', ''youtu.be''] remainder_ok url"
    unfolding shape_ex by (rule nested_segments)
  finally show ?thesis .
qed

lemma shape_hosts_split:
  "shape [a, b, c] ok url \<longleftrightarrow> shape [a, c] ok url \<or> shape [b] ok url"
  unfolding shape_def by auto

section \<open>Stepping through the functions\<close>

text \<open>
  One equation for each way through \<^verbatim>\<open>download_video_info\<close>, \<^verbatim>\<open>transcribe_audio\<close> and
  \<^verbatim>\<open>get_video_info_and_transcribe\<close>, so that the claims can follow a run step by step.
\<close>

lemmas world_steps = print_def progress_def after_download_def

lemma dvi_invalid:
  "\<not> is_valid_youtube_url url \<Longrightarrow>
     download_video_info c url w = (Inr (None, Some ''Invalid YouTube URL.'', None), w)"
  by (simp add: download_video_info_def)

lemma dvi_ok:
  "is_valid_youtube_url url \<Longrightarrow>
   download_mp3_yt_dlp c url (files w) = (Inr (Some path, title, thumbnail), f1) \<Longrightarrow>
   path \<noteq> [] \<Longrightarrow>
     download_video_info c url w = (Inr (Some path, title, thumbnail), after_download url f1 w)"
  by (simp add: download_video_info_def truthy_def)






lemma run_no_audio:
  "download_video_info c url (progress 0 ''Validating URL...'' w) = (Inr (None, title, thumbnail), w1) \<Longrightarrow>
     get_video_info_and_transcribe c url msize lang w = (Inr (title, None, '''', None), w1)"
  by (simp add: get_video_info_and_transcribe_def)

lemma write_file_ok:
  "writable c path text \<Longrightarrow>
     write_file c path text w = (Inr (), w\<lparr>files := (files w)(dir_entry c path \<mapsto> text)\<rparr>)"
  by (simp add: write_file_def writable_def)

lemma write_file_Inr:
  "write_file c path text w = (Inr u, w') \<Longrightarrow>
     writable c path text \<and> w' = w\<lparr>files := (files w)(dir_entry c path \<mapsto> text)\<rparr>"
  by (auto simp: write_file_def writable_def Let_def split: if_splits option.splits)

lemma remove_file_ok:
  "removable c path \<Longrightarrow> files w (dir_entry c path) \<noteq> None \<Longrightarrow>
     remove_file c path w = (Inr (), w\<lparr>files := (files w)(dir_entry c path := None)\<rparr>)"
  by (auto simp: remove_file_def removable_def)

lemma remove_file_Inr:
  "remove_file c path w = (Inr u, w') \<Longrightarrow>
     removable c path \<and> w' = w\<lparr>files := (files w)(dir_entry c path := None)\<rparr>"
  by (auto simp: remove_file_def removable_def Let_def split: if_splits option.splits)

lemma remove_file_refused:
  "\<not> is_dir c (dir_entry c path) \<Longrightarrow> files w (dir_entry c path) \<noteq> None \<Longrightarrow>
   remove_error c (dir_entry c path) = Some e \<Longrightarrow>
     remove_file c path w = (Inl (Exception e), w)"
  by (auto simp: remove_file_def)

lemma nothing_to_remove:
  "\<not> path_exists c path w \<Longrightarrow> w\<lparr>files := (files w)(dir_entry c path := None)\<rparr> = w"
  by (simp add: path_exists_def dom_def fun_upd_idem)

lemma path_exists_file:
  "\<not> is_dir c (dir_entry c path) \<Longrightarrow>
     path_exists c path w = (files w (dir_entry c path) \<noteq> None)"
  by (simp add: path_exists_def dom_def)

lemma clean_up_ok:
  "removable c path \<Longrightarrow>
     (if path_exists c path w
      then (case remove_file c path w of
              (Inl x, w2) \<Rightarrow> (Inl x, w2)
            | (Inr _, w2) \<Rightarrow> (Inr f, w2))
      else (Inr f, w))
     = (Inr f, w\<lparr>files := (files w)(dir_entry c path := None)\<rparr>)"
proof (cases "path_exists c path w")
  case True
  assume r: "removable c path"
  then have "files w (dir_entry c path) \<noteq> None"
    using True by (simp add: removable_def path_exists_file)
  from remove_file_ok [OF r this] True show ?thesis by simp
next
  case False
  then show ?thesis by (simp add: nothing_to_remove)
qed

lemma save_ok:
  "writable c ''transcription.txt'' text \<Longrightarrow> removable c path \<Longrightarrow>
     save_and_clean_up c path text w =
       (Inr ''transcription.txt'',
        w\<lparr>files := ((files w)(dir_entry c ''transcription.txt'' \<mapsto> text))
                       (dir_entry c path := None)\<rparr>)"
  by (simp add: save_and_clean_up_def Let_def write_file_ok clean_up_ok)

lemma save_Inr:
  assumes "save_and_clean_up c path text w = (Inr f, w')"
  shows "f = ''transcription.txt'' \<and> writable c ''transcription.txt'' text \<and>
         \<not> is_dir c (dir_entry c path) \<and>
         w' = w\<lparr>files := ((files w)(dir_entry c ''transcription.txt'' \<mapsto> text))
                          (dir_entry c path := None)\<rparr>"
proof -
  obtain r w1 where wr: "write_file c ''transcription.txt'' text w = (r, w1)" by fastforce
  with assms obtain u where r: "r = Inr u"
    by (cases r) (simp_all add: save_and_clean_up_def Let_def)
  from write_file_Inr [OF wr [unfolded r]]
  have wt: "writable c ''transcription.txt'' text"
    and w1: "w1 = w\<lparr>files := (files w)(dir_entry c ''transcription.txt'' \<mapsto> text)\<rparr>"
    by simp_all
  show ?thesis
  proof (cases "path_exists c path w1")
    case True
    obtain r2 w2 where rm: "remove_file c path w1 = (r2, w2)" by fastforce
    with assms wr r True obtain u2 where r2: "r2 = Inr u2"
      by (cases r2) (simp_all add: save_and_clean_up_def Let_def)
    from remove_file_Inr [OF rm [unfolded r2]]
    have rv: "\<not> is_dir c (dir_entry c path)"
      and w2: "w2 = w1\<lparr>files := (files w1)(dir_entry c path := None)\<rparr>"
      by (simp_all add: removable_def)
    from assms wr r True rm r2 have "f = ''transcription.txt''" "w' = w2"
      by (simp_all add: save_and_clean_up_def Let_def)
    with rv w2 w1 wt show ?thesis by simp
  next
    case False
    then have "\<not> is_dir c (dir_entry c path)" by (simp add: path_exists_def)
    moreover from assms wr r False have "f = ''transcription.txt''" "w' = w1"
      by (simp_all add: save_and_clean_up_def Let_def)
    moreover note nothing_to_remove [OF False] wt w1
    ultimately show ?thesis by simp
  qed
qed

lemma save_Inr_removable:
  assumes "save_and_clean_up c path text w = (Inr f, w')"
    and "dir_entry c path = dir_entry c ''transcription.txt''"
  shows "removable c path"
proof -
  let ?w1 = "w\<lparr>files := (files w)(dir_entry c ''transcription.txt'' \<mapsto> text)\<rparr>"
  from save_Inr [OF assms(1)] have wt: "writable c ''transcription.txt'' text" by simp
  have ex: "path_exists c path ?w1"
    using assms(2) by (simp add: path_exists_def)
  obtain r2 w2 where rm: "remove_file c path ?w1 = (r2, w2)" by fastforce
  with assms(1) ex obtain u2 where r2: "r2 = Inr u2"
    by (cases r2) (simp_all add: save_and_clean_up_def Let_def write_file_ok [OF wt])
  from remove_file_Inr [OF rm [unfolded r2]] show ?thesis by simp
qed

lemma save_cases:
  assumes "writable c ''transcription.txt'' text" and "\<not> is_dir c (dir_entry c path)"
  shows "save_and_clean_up c path text w =
           (Inr ''transcription.txt'',
            w\<lparr>files := ((files w)(dir_entry c ''transcription.txt'' \<mapsto> text))
                           (dir_entry c path := None)\<rparr>) \<or>
         (\<exists>e. remove_error c (dir_entry c path) = Some e \<and>
              dir_entry c path \<noteq> dir_entry c ''transcription.txt'' \<and>
              save_and_clean_up c path text w =
                (Inl (Exception e),
                 w\<lparr>files := (files w)(dir_entry c ''transcription.txt'' \<mapsto> text)\<rparr>)) \<or>
         (\<exists>e. remove_error c (dir_entry c path) = Some e \<and>
              dir_entry c path = dir_entry c ''transcription.txt'')"
proof (cases "remove_error c (dir_entry c path)")
  case None
  with assms(2) have "removable c path" by (simp add: removable_def)
  from save_ok [OF assms(1) this] show ?thesis by simp
next
  case (Some e)
  let ?w1 = "w\<lparr>files := (files w)(dir_entry c ''transcription.txt'' \<mapsto> text)\<rparr>"
  show ?thesis
  proof (cases "dir_entry c path = dir_entry c ''transcription.txt''")
    case True
    with Some show ?thesis by simp
  next
    case False
    show ?thesis
    proof (cases "path_exists c path ?w1")
      case True
      then have "files ?w1 (dir_entry c path) \<noteq> None"
        using assms(2) by (simp add: path_exists_file)
      from remove_file_refused [OF assms(2) this Some] True Some False show ?thesis
        by (simp add: save_and_clean_up_def Let_def write_file_ok [OF assms(1)])
    next
      case ne: False
      from nothing_to_remove [OF ne] ne show ?thesis
        by (simp add: save_and_clean_up_def Let_def write_file_ok [OF assms(1)])
    qed
  qed
qed

lemma run_audio:
  "download_video_info c url (progress 0 ''Validating URL...'' w) = (Inr (Some path, title, thumbnail), w1) \<Longrightarrow>
   path \<noteq> [] \<Longrightarrow>
   transcribe_audio c path msize lang (progress 50 ''Transcribing audio...'' w1) = (Inr text, w2) \<Longrightarrow>
     get_video_info_and_transcribe c url msize lang w =
       (case save_and_clean_up c path text w2 of
          (Inl x, w3) \<Rightarrow> (Inl x, w3)
        | (Inr transcription_file, w3) \<Rightarrow>
            (Inr (title, thumbnail, text, Some transcription_file), progress 100 ''Done'' w3))"
  by (simp add: get_video_info_and_transcribe_def truthy_def)






lemma files_progress [simp]: "files (progress n d w) = files w"
  by (simp add: progress_def)

subsection \<open>Evaluation on concrete inputs\<close>

lemma good_url_valid: "is_valid_youtube_url good_url"
  by (simp add: good_url_def is_valid_youtube_url_def re_match_def youtube_regex_def
      scheme_re_def www_re_def host_re_def path_re_def newline_def)

lemmas run_defs = get_video_info_and_transcribe_def download_video_info_def transcribe_audio_def
  transcribe_audio_try_def cached_model_def language_options_def truthy_def Let_def
  print_def progress_def after_download_def save_and_clean_up_def write_file_def path_exists_def
  remove_file_def is_a_directory_error_def file_not_found_error_def

subsection \<open>What can leave a function\<close>




subsection \<open>One call and the model cache\<close>


lemma try_models: "models (snd (transcribe_audio_try c p msize lang w)) = models (snd (cached_model c msize w))"
  by (simp add: transcribe_audio_try_def Let_def split: prod.splits sum.splits option.splits)

lemma try_load_calls: "load_calls (snd (transcribe_audio_try c p msize lang w)) = load_calls (snd (cached_model c msize w))"
  by (simp add: transcribe_audio_try_def Let_def split: prod.splits sum.splits option.splits)

lemma ta_models: "models (snd (transcribe_audio c p msize lang w)) = models (snd (cached_model c msize w))"
  using try_models [of c p msize lang w]
  by (cases "transcribe_audio_try c p msize lang w")
     (auto simp: transcribe_audio_def print_def split: sum.splits exn.splits)

lemma ta_load_calls: "load_calls (snd (transcribe_audio c p msize lang w)) = load_calls (snd (cached_model c msize w))"
  using try_load_calls [of c p msize lang w]
  by (cases "transcribe_audio_try c p msize lang w")
     (auto simp: transcribe_audio_def print_def split: sum.splits exn.splits)




subsection \<open>Sequences of calls and the model cache\<close>

lemma step_cached:
  "models w z = Some m \<Longrightarrow>
     models (snd (transcribe_audio c p msize lang w)) z = Some m"
  by (auto simp: ta_models cached_model_def Let_def split: option.splits prod.splits sum.splits)

lemma step_count_other:
  "msize \<noteq> z \<Longrightarrow>
     count_list (load_calls (snd (transcribe_audio c p msize lang w))) z = count_list (load_calls w) z"
  by (auto simp: ta_load_calls cached_model_def Let_def split: option.splits prod.splits sum.splits)

lemma step_models_other:
  "msize \<noteq> z \<Longrightarrow> models (snd (transcribe_audio c p msize lang w)) z = models w z"
  by (auto simp: ta_models cached_model_def Let_def split: option.splits prod.splits sum.splits)

lemma step_count_hit:
  "models w z \<noteq> None \<Longrightarrow>
     count_list (load_calls (snd (transcribe_audio c p msize lang w))) z = count_list (load_calls w) z"
  by (auto simp: ta_load_calls cached_model_def Let_def split: option.splits prod.splits sum.splits)

lemma step_count_miss:
  "models w z = None \<Longrightarrow> \<forall>f. \<exists>m. fst (load_model c z f) = Inr m \<Longrightarrow>
     count_list (load_calls (snd (transcribe_audio c p z lang w))) z = count_list (load_calls w) z + 1 \<and>
     models (snd (transcribe_audio c p z lang w)) z \<noteq> None"
proof -
  assume a: "models w z = None" "\<forall>f. \<exists>m. fst (load_model c z f) = Inr m"
  then obtain m f1 where "load_model c z (files w) = (Inr m, f1)"
    by (metis prod.collapse)
  with a(1) show ?thesis
    by (simp add: ta_load_calls ta_models cached_model_def)
qed

lemma many_cached:
  "models w z = Some m \<Longrightarrow>
     models (transcribe_many c calls w) z = Some m \<and>
     count_list (load_calls (transcribe_many c calls w)) z = count_list (load_calls w) z"
proof (induction calls arbitrary: w)
  case Nil
  then show ?case by simp
next
  case (Cons call calls)
  obtain p msize lang where call: "call = (p, msize, lang)" by (cases call) auto
  from Cons.prems have "models (snd (transcribe_audio c p msize lang w)) z = Some m"
    by (rule step_cached)
  from Cons.IH [OF this] Cons.prems call show ?case
    by (simp add: step_count_hit)
qed

lemma many_uncached:
  "models w z = None \<Longrightarrow> \<forall>f. \<exists>m. fst (load_model c z f) = Inr m \<Longrightarrow>
     count_list (load_calls (transcribe_many c calls w)) z =
       count_list (load_calls w) z + (if z \<in> (\<lambda>(p, msize, lang). msize) ` set calls then 1 else 0) \<and>
     (z \<in> (\<lambda>(p, msize, lang). msize) ` set calls \<longrightarrow> models (transcribe_many c calls w) z \<noteq> None)"
proof (induction calls arbitrary: w)
  case Nil
  then show ?case by simp
next
  case (Cons call calls)
  obtain p msize lang where call: "call = (p, msize, lang)" by (cases call) auto
  let ?w = "snd (transcribe_audio c p msize lang w)"
  show ?case
  proof (cases "msize = z")
    case True
    from step_count_miss [OF Cons.prems, of p lang] obtain m where
      m: "models ?w z = Some m" and n: "count_list (load_calls ?w) z = count_list (load_calls w) z + 1"
      using True by auto
    from many_cached [OF m, of c calls] n call True show ?thesis by simp
  next
    case False
    then have "models ?w z = None"
      using Cons.prems(1) by (simp add: step_models_other)
    from Cons.IH [OF this Cons.prems(2)] False call show ?thesis
      by (simp add: step_count_other)
  qed
qed

subsection \<open>What a run returns, apart from the state it leaves\<close>

lemma dvi_fst:
  "fst (download_video_info c url w) =
     (if \<not> is_valid_youtube_url url then Inr (None, Some ''Invalid YouTube URL.'', None)
      else (case fst (download_mp3_yt_dlp c url (files w)) of
              Inr (a, title, thumbnail) \<Rightarrow>
                if \<not> truthy a then Inr (None, Some ''Failed to download audio.'', None)
                else Inr (a, title, thumbnail)
            | Inl (Exception e) \<Rightarrow>
                Inr (None, Some ''An error occurred while downloading the video.'', None)
            | Inl (BaseException e) \<Rightarrow> Inl (BaseException e)))"
  by (simp add: download_video_info_def Let_def split: prod.splits sum.splits exn.splits)

lemma det_download:
  "deterministic c \<Longrightarrow> fst (download_mp3_yt_dlp c url f) = fst (download_mp3_yt_dlp c url f')"
  unfolding deterministic_def by blast

lemma det_load:
  "deterministic c \<Longrightarrow> fst (load_model c msize f) = fst (load_model c msize f')"
  unfolding deterministic_def by blast

lemma det_transcribe:
  "deterministic c \<Longrightarrow>
     fst (model_transcribe c m p opts f) = fst (model_transcribe c m p opts f')"
  unfolding deterministic_def by blast

lemma det_out_file:
  "leaves_output_file c \<Longrightarrow>
     snd (download_mp3_yt_dlp c url f) (dir_entry c ''transcription.txt'')
       = f (dir_entry c ''transcription.txt'')"
  unfolding leaves_output_file_def by blast

lemma dvi_det:
  "deterministic c \<Longrightarrow> fst (download_video_info c url w) = fst (download_video_info c url w')"
  unfolding dvi_fst using det_download [of c url "files w" "files w'"] by simp

lemma dvi_models: "models (snd (download_video_info c url w)) = models w"
  by (simp add: download_video_info_def Let_def world_steps split: prod.splits sum.splits exn.splits)

lemma dvi_out_file:
  "leaves_output_file c \<Longrightarrow>
     files (snd (download_video_info c url w)) (dir_entry c ''transcription.txt'')
       = files w (dir_entry c ''transcription.txt'')"
proof -
  assume "leaves_output_file c"
  then have "snd (download_mp3_yt_dlp c url (files w)) (dir_entry c ''transcription.txt'')
               = files w (dir_entry c ''transcription.txt'')"
    by (rule det_out_file)
  then show ?thesis
    by (auto simp: download_video_info_def Let_def world_steps split: prod.splits sum.splits exn.splits)
qed

lemma cached_model_det:
  assumes "deterministic c" and "models w' = models (snd (cached_model c msize w))"
  shows "fst (cached_model c msize w') = fst (cached_model c msize w)"
proof (cases "models w msize")
  case (Some m)
  with assms(2) show ?thesis by (simp add: cached_model_def)
next
  case None
  obtain r f1 where l: "load_model c msize (files w) = (r, f1)" by fastforce
  show ?thesis
  proof (cases r)
    case (Inl x)
    with None l assms(2) have "models w' msize = None" by (simp add: cached_model_def)
    moreover have "fst (load_model c msize (files w')) = Inl x"
      using det_load [OF assms(1), of msize "files w'" "files w"] l Inl by simp
    ultimately show ?thesis using None l Inl
      by (auto simp: cached_model_def Let_def split: prod.splits sum.splits)
  next
    case (Inr m)
    with None l assms(2) have "models w' msize = Some m" by (simp add: cached_model_def)
    then show ?thesis using None l Inr by (simp add: cached_model_def)
  qed
qed

lemma try_fst:
  "fst (transcribe_audio_try c p msize lang w) =
     (case fst (cached_model c msize w) of
        Inl x \<Rightarrow> Inl x
      | Inr m \<Rightarrow>
          (case fst (model_transcribe c m p (language_options lang)
                       (files (snd (cached_model c msize w)))) of
             Inl x \<Rightarrow> Inl x
           | Inr result \<Rightarrow>
               (case result ''text'' of None \<Rightarrow> Inl (Exception key_error_text)
                | Some t \<Rightarrow> Inr t)))"
  by (simp add: transcribe_audio_try_def Let_def split: prod.splits sum.splits option.splits)

lemma try_det:
  assumes "deterministic c" and "models w' = models (snd (cached_model c msize w))"
  shows "fst (transcribe_audio_try c p msize lang w') = fst (transcribe_audio_try c p msize lang w)"
proof -
  have "\<And>m. fst (model_transcribe c m p (language_options lang) (files (snd (cached_model c msize w'))))
                 = fst (model_transcribe c m p (language_options lang) (files (snd (cached_model c msize w))))"
    by (rule det_transcribe [OF assms(1)])
  then show ?thesis
    unfolding try_fst cached_model_det [OF assms] by (simp split: sum.splits)
qed

lemma ta_fst:
  "fst (transcribe_audio c p msize lang w) =
     (case fst (transcribe_audio_try c p msize lang w) of
        Inr t \<Rightarrow> Inr t
      | Inl (Exception e) \<Rightarrow> Inr ''An error occurred during transcription.''
      | Inl (BaseException e) \<Rightarrow> Inl (BaseException e))"
  by (simp add: transcribe_audio_def split: prod.splits sum.splits exn.splits)

lemma ta_det:
  assumes "deterministic c" and "models w' = models (snd (transcribe_audio c p msize lang w))"
  shows "fst (transcribe_audio c p msize lang w') = fst (transcribe_audio c p msize lang w)"
  unfolding ta_fst using try_det [OF assms(1) assms(2) [unfolded ta_models]] by simp

lemma models_progress [simp]: "models (progress n d w) = models w"
  by (simp add: progress_def)

section \<open>The claims\<close>

subsection \<open>Successful run: outputs and the saved file\<close>




text \<open>
  The same happens when the audio path is another path to the same file, here
  \<^verbatim>\<open>./transcription.txt\<close>: the two paths differ as strings, and the file is gone.
\<close>

lemma output_file_removed_through_another_path:
  "''./transcription.txt'' \<noteq> ''transcription.txt'' \<and>
   fst (get_video_info_and_transcribe stub_alias good_url ''base'' None w0)
     = Inr (Some ''Title'', Some ''thumb.jpg'', ''hello'', Some ''transcription.txt'') \<and>
   files (snd (get_video_info_and_transcribe stub_alias good_url ''base'' None w0))
     (dir_entry stub_alias ''transcription.txt'') = None"
  by (simp add: run_defs good_url_valid stub_alias_def stub_def w0_def)

text \<open>
  And nothing is returned when saving or cleaning up raises: with a directory in the
  place of \<^verbatim>\<open>transcription.txt\<close>, with a full disk, and with an audio file that the system
  refuses to remove, the exception leaves \<^verbatim>\<open>get_video_info_and_transcribe\<close>; in the last
  case after the output file has been written.
\<close>

lemma file_operations_raise:
  "fst (get_video_info_and_transcribe stub_output_is_dir good_url ''base'' None w0)
     = Inl (is_a_directory_error ''transcription.txt'') \<and>
   fst (get_video_info_and_transcribe stub_disk_full good_url ''base'' None w0)
     = Inl (Exception ''[Errno 28] No space left on device'') \<and>
   fst (get_video_info_and_transcribe stub_unremovable good_url ''base'' None w0)
     = Inl (Exception (permission_denied ''audio.mp3'')) \<and>
   files (snd (get_video_info_and_transcribe stub_unremovable good_url ''base'' None w0))
     ''transcription.txt'' = Some ''hello''"
  by (simp add: run_defs good_url_valid stub_output_is_dir_def stub_disk_full_def
      stub_unremovable_def permission_denied_def stub_def w0_def)

subsection \<open>The URL validator\<close>

text \<open>
  Claim C2, amended. For every string that does not have the dotless host
  \<^verbatim>\<open>youtube\<close> in host position, \<^verbatim>\<open>is_valid_youtube_url\<close> returns true if and only if the
  string is an optional \<^verbatim>\<open>http://\<close> or \<^verbatim>\<open>https://\<close>, an optional \<^verbatim>\<open>www.\<close>, the host
  \<^verbatim>\<open>youtube.com\<close> or \<^verbatim>\<open>youtu.be\<close>, a \<^verbatim>\<open>/\<close>, and a remainder of one or more characters
  other than the newline, optionally followed by one final newline.
\<close>

theorem is_valid_youtube_url_shape:
  "\<not> dotless_host url \<Longrightarrow>
     is_valid_youtube_url url = shape [''youtube.com'', ''youtu.be''] remainder_ok url"
  unfolding dotless_host_def valid_iff shape_hosts_split by simp

text \<open>The theorem at work on a standard link.\<close>

theorem is_valid_youtube_url_shape_witness:
  "\<not> dotless_host good_url \<and>
   is_valid_youtube_url good_url = shape [''youtube.com'', ''youtu.be''] remainder_ok good_url \<and>
   is_valid_youtube_url good_url"
proof -
  have h: "\<not> dotless_host good_url"
    by (simp add: good_url_def dotless_host_def shape_def)
  from is_valid_youtube_url_shape [OF h] h good_url_valid show ?thesis by simp
qed

text \<open>
  As first worded, any non-empty remainder, the claim fails: \<^verbatim>\<open>youtube.com/\<close> followed by
  a single newline has the shape of the specification and is rejected.
\<close>

theorem newline_remainder_rejected:
  "spec_shape (''youtube.com/'' @ [newline]) \<and>
   \<not> is_valid_youtube_url (''youtube.com/'' @ [newline])"
  by (simp add: spec_shape_def shape_def is_valid_youtube_url_def re_match_def youtube_regex_def
      scheme_re_def www_re_def host_re_def path_re_def newline_def)

text \<open>
  The strings left out of the theorem: the optional dot of \<^verbatim>\<open>youtu\.?be\<close> lets the host
  \<^verbatim>\<open>youtube\<close>, with no top-level domain, through.
\<close>

lemma dotless_host_accepted:
  "is_valid_youtube_url ''youtube/x'' \<and> \<not> spec_shape ''youtube/x''"
  by (simp add: spec_shape_def shape_def is_valid_youtube_url_def re_match_def youtube_regex_def
      scheme_re_def www_re_def host_re_def path_re_def newline_def)

subsection \<open>Faults of the collaborators\<close>




subsection \<open>A URL that fails validation\<close>

text \<open>
  Claim C4. For every URL that fails validation, \<^verbatim>\<open>get_video_info_and_transcribe\<close>
  returns an error message as the title, no thumbnail, an empty transcription and no
  file path, and calls neither the download nor the model loader nor the model: the
  call records and the files are as they were.
\<close>

theorem invalid_url_short_circuits:
  "\<not> is_valid_youtube_url url \<Longrightarrow>
     fst (get_video_info_and_transcribe c url msize lang w)
       = Inr (Some ''Invalid YouTube URL.'', None, '''', None) \<and>
     download_calls (snd (get_video_info_and_transcribe c url msize lang w)) = download_calls w \<and>
     load_calls (snd (get_video_info_and_transcribe c url msize lang w)) = load_calls w \<and>
     transcribe_calls (snd (get_video_info_and_transcribe c url msize lang w)) = transcribe_calls w \<and>
     files (snd (get_video_info_and_transcribe c url msize lang w)) = files w"
  by (simp add: run_no_audio [OF dvi_invalid] progress_def)

theorem invalid_url_short_circuits_witness:
  "\<not> is_valid_youtube_url ''https://example.com/watch'' \<and>
   fst (get_video_info_and_transcribe (stub ''audio.mp3'') ''https://example.com/watch'' ''base'' None w0)
     = Inr (Some ''Invalid YouTube URL.'', None, '''', None) \<and>
   download_calls (snd (get_video_info_and_transcribe (stub ''audio.mp3'')
     ''https://example.com/watch'' ''base'' None w0)) = [] \<and>
   transcribe_calls (snd (get_video_info_and_transcribe (stub ''audio.mp3'')
     ''https://example.com/watch'' ''base'' None w0)) = []"
proof -
  have h: "\<not> is_valid_youtube_url ''https://example.com/watch''"
    by (simp add: is_valid_youtube_url_def re_match_def youtube_regex_def
        scheme_re_def www_re_def host_re_def path_re_def newline_def)
  from invalid_url_short_circuits [OF h, where c = "stub ''audio.mp3''" and msize = "''base''" and lang = None and w = w0] h
  show ?thesis by (simp add: w0_def)
qed

subsection \<open>A download that fails\<close>



subsection \<open>The model cache\<close>

text \<open>
  Claim C6, amended. For a model size whose load does not fail, any sequence of calls
  to \<^verbatim>\<open>transcribe_audio\<close> invokes the loader for that size at most once: never when the
  size is already in the cache, and exactly once, inserting the model, when the size is
  not in the cache and some call asks for it; every later call reuses the cached model.
  No entry of the cache is ever removed or replaced.
\<close>

theorem model_loaded_at_most_once:
  assumes "\<forall>f. \<exists>m. fst (load_model c z f) = Inr m"
  shows "count_list (load_calls (transcribe_many c calls w)) z \<le> count_list (load_calls w) z + 1 \<and>
         (models w z \<noteq> None \<longrightarrow>
            count_list (load_calls (transcribe_many c calls w)) z = count_list (load_calls w) z) \<and>
         (models w z = None \<and> z \<in> (\<lambda>(p, msize, lang). msize) ` set calls \<longrightarrow>
            count_list (load_calls (transcribe_many c calls w)) z = count_list (load_calls w) z + 1 \<and>
            models (transcribe_many c calls w) z \<noteq> None) \<and>
         (\<forall>s m. models w s = Some m \<longrightarrow> models (transcribe_many c calls w) s = Some m)"
proof (cases "models w z")
  case None
  from many_uncached [OF None assms, of calls] None show ?thesis
    by (auto simp: many_cached)
next
  case (Some m)
  from many_cached [OF Some, of c calls] Some show ?thesis
    by (auto simp: many_cached)
qed

text \<open>
  The theorem at work on three calls with the size \<^verbatim>\<open>base\<close>: in an empty process the
  loader runs once, in a process that has the model cached it does not run.
\<close>

theorem model_loaded_at_most_once_witness:
  "(\<forall>f. \<exists>m. fst (load_model (stub ''audio.mp3'') ''base'' f) = Inr m) \<and>
   models w0 ''base'' = None \<and>
   count_list (load_calls (transcribe_many (stub ''audio.mp3'')
      [(''a.mp3'', ''base'', None), (''b.mp3'', ''base'', Some ''en''), (''c.mp3'', ''base'', None)] w0))
      ''base'' = 1 \<and>
   models (w0\<lparr>models := [''base'' \<mapsto> 7]\<rparr>) ''base'' \<noteq> None \<and>
   count_list (load_calls (transcribe_many (stub ''audio.mp3'')
      [(''a.mp3'', ''base'', None), (''b.mp3'', ''base'', Some ''en''), (''c.mp3'', ''base'', None)]
      (w0\<lparr>models := [''base'' \<mapsto> 7]\<rparr>))) ''base'' = 0 \<and>
   models (transcribe_many (stub ''audio.mp3'')
      [(''a.mp3'', ''base'', None), (''b.mp3'', ''base'', Some ''en''), (''c.mp3'', ''base'', None)]
      (w0\<lparr>models := [''base'' \<mapsto> 7]\<rparr>)) ''base'' = Some 7"
proof -
  have h: "\<forall>f. \<exists>m. fst (load_model (stub ''audio.mp3'') ''base'' f) = Inr m"
    by (simp add: stub_def)
  let ?calls = "[(''a.mp3'', ''base'', None), (''b.mp3'', ''base'', Some ''en''),
                 (''c.mp3'', ''base'', None :: string option)]"
  from model_loaded_at_most_once [OF h, of ?calls w0]
       model_loaded_at_most_once [OF h, of ?calls "w0\<lparr>models := [''base'' \<mapsto> 7]\<rparr>"] h
  show ?thesis by (simp add: w0_def)
qed

text \<open>
  As first worded, for every sequence of calls, the claim fails: a load that raises
  inserts nothing, so the next call invokes the loader again.
\<close>

theorem failing_loader_invoked_again:
  "count_list (load_calls (transcribe_many stub_load_raises
      [(''a.mp3'', ''base'', None), (''a.mp3'', ''base'', None)] w0)) ''base'' = 2"
  by (simp add: run_defs stub_load_raises_def stub_def w0_def)

subsection \<open>Clean-up of the audio file\<close>

text \<open>
  Claim C7. After every run of \<^verbatim>\<open>get_video_info_and_transcribe\<close> in which the download
  returned a non-empty audio path and which returned its outputs, no file exists at that
  path.
\<close>

theorem audio_file_removed:
  assumes "is_valid_youtube_url url"
    and "download_mp3_yt_dlp c url (files w) = (Inr (Some path, title, thumbnail), f1)"
    and "path \<noteq> []"
    and "fst (get_video_info_and_transcribe c url msize lang w) = Inr out"
  shows "\<not> path_exists c path (snd (get_video_info_and_transcribe c url msize lang w))"
proof -
  let ?w1 = "after_download url f1 (progress 0 ''Validating URL...'' w)"
  have d: "download_video_info c url (progress 0 ''Validating URL...'' w)
          = (Inr (Some path, title, thumbnail), ?w1)"
    using assms(1-3) by (intro dvi_ok) simp_all
  obtain r w2 where
    t: "transcribe_audio c path msize lang (progress 50 ''Transcribing audio...'' ?w1) = (r, w2)"
    by fastforce
  show ?thesis
  proof (cases r)
    case (Inl x)
    with d t assms(3,4) show ?thesis
      by (simp add: get_video_info_and_transcribe_def truthy_def)
  next
    case (Inr transcription)
    obtain rs w3 where s: "save_and_clean_up c path transcription w2 = (rs, w3)" by fastforce
    note g = run_audio [OF d assms(3) t [unfolded Inr]]
    show ?thesis
    proof (cases rs)
      case (Inl x)
      with g s assms(4) show ?thesis by simp
    next
      case (Inr transcription_file)
      from save_Inr [OF s [unfolded Inr]]
      have "\<not> is_dir c (dir_entry c path)" and "files w3 (dir_entry c path) = None"
        by simp_all
      then have "\<not> path_exists c path (progress 100 ''Done'' w3)"
        by (simp add: path_exists_file)
      with g s Inr show ?thesis by simp
    qed
  qed
qed

text \<open>The theorem at work: the stub download leaves \<^verbatim>\<open>audio.mp3\<close> behind, and the run removes it.\<close>

theorem audio_file_removed_witness:
  "is_valid_youtube_url good_url \<and>
   download_mp3_yt_dlp (stub ''audio.mp3'') good_url (files w0)
     = (Inr (Some ''audio.mp3'', Some ''Title'', Some ''thumb.jpg''), [''audio.mp3'' \<mapsto> ''audio'']) \<and>
   ''audio.mp3'' \<noteq> '''' \<and>
   fst (get_video_info_and_transcribe (stub ''audio.mp3'') good_url ''base'' None w0)
     = Inr (Some ''Title'', Some ''thumb.jpg'', ''hello'', Some ''transcription.txt'') \<and>
   \<not> path_exists (stub ''audio.mp3'') ''audio.mp3''
       (snd (get_video_info_and_transcribe (stub ''audio.mp3'') good_url ''base'' None w0))"
proof -
  have d: "download_mp3_yt_dlp (stub ''audio.mp3'') good_url (files w0)
     = (Inr (Some ''audio.mp3'', Some ''Title'', Some ''thumb.jpg''), [''audio.mp3'' \<mapsto> ''audio''])"
    by (simp add: stub_def w0_def)
  have r: "fst (get_video_info_and_transcribe (stub ''audio.mp3'') good_url ''base'' None w0)
     = Inr (Some ''Title'', Some ''thumb.jpg'', ''hello'', Some ''transcription.txt'')"
    by (simp add: run_defs good_url_valid stub_def w0_def)
  have n: "''audio.mp3'' \<noteq> ''''" by simp
  from audio_file_removed [OF good_url_valid d n r] good_url_valid d r
  show ?thesis by simp
qed

subsection \<open>Running twice\<close>

text \<open>
  Claim C8. With deterministic collaborators, a second run of
  \<^verbatim>\<open>get_video_info_and_transcribe\<close> with the same inputs, started where the first run
  ended, returns the same outputs, unless the system refuses to remove an audio file
  that the second download has left, and when the run returns the output file it leaves
  \<^verbatim>\<open>transcription.txt\<close> with the content the first run left, also when the removal is
  refused: the file is written afresh, not appended to, so that the file, if it is
  there, holds the transcription once. When the run ends before the file is opened, the
  content is that of the first run as long as the download leaves the output file alone.
\<close>

theorem rerun_same_file_content:
  assumes "deterministic c"
    and "get_video_info_and_transcribe c url msize lang w = (Inr out, w1)"
  shows "(fst (get_video_info_and_transcribe c url msize lang w1) = Inr out \<or>
          (\<exists>p e. remove_error c p = Some e \<and>
                 fst (get_video_info_and_transcribe c url msize lang w1) = Inl (Exception e))) \<and>
         (snd (snd (snd out)) \<noteq> None \<or> leaves_output_file c \<longrightarrow>
            files (snd (get_video_info_and_transcribe c url msize lang w1))
              (dir_entry c ''transcription.txt'')
              = files w1 (dir_entry c ''transcription.txt'')) \<and>
         (\<forall>title thumbnail transcription.
            out = (title, thumbnail, transcription, Some ''transcription.txt'') \<longrightarrow>
            files w1 (dir_entry c ''transcription.txt'') \<noteq> None \<longrightarrow>
            files w1 (dir_entry c ''transcription.txt'') = Some transcription)"
proof -
  let ?p0 = "progress 0 ''Validating URL...''"
  let ?p50 = "progress 50 ''Transcribing audio...''"
  let ?out = "dir_entry c ''transcription.txt''"
  obtain rd wd where D: "download_video_info c url (?p0 w) = (rd, wd)" by fastforce
  obtain rd' wd' where D': "download_video_info c url (?p0 w1) = (rd', wd')" by fastforce
  have rd': "rd' = rd"
    using dvi_det [OF assms(1), of url "?p0 w1" "?p0 w"] D D' by simp
  have wd'_models: "models wd' = models w1"
    using dvi_models [of c url "?p0 w1"] D' by simp
  have wd'_file: "files wd' ?out = files w1 ?out"
    if "leaves_output_file c"
    using dvi_out_file [OF that, of url "?p0 w1"] D' by simp
  show ?thesis
  proof (cases rd)
    case (Inl x)
    with D assms(2) show ?thesis by (simp add: get_video_info_and_transcribe_def)
  next
    case (Inr info)
    obtain a title thumbnail where info: "info = (a, title, thumbnail)" by (cases info) auto
    show ?thesis
    proof (cases "truthy a")
      case False
      have 1: "get_video_info_and_transcribe c url msize lang w = (Inr (title, None, '''', None), wd)"
        using D Inr info False
        by (auto simp: get_video_info_and_transcribe_def split: option.splits)
      have 2: "get_video_info_and_transcribe c url msize lang w1 = (Inr (title, None, '''', None), wd')"
        using D' rd' Inr info False
        by (auto simp: get_video_info_and_transcribe_def split: option.splits)
      from 1 assms(2) have out: "out = (title, None, '''', None)" and w1: "w1 = wd"
        by simp_all
      from 2 out
      have a: "fst (get_video_info_and_transcribe c url msize lang w1) = Inr out"
        by simp
      from 2 wd'_file out
      have b: "snd (snd (snd out)) \<noteq> None \<or> leaves_output_file c \<longrightarrow>
            files (snd (get_video_info_and_transcribe c url msize lang w1)) ?out = files w1 ?out"
        by simp
      from out
      have c: "\<forall>title thumbnail transcription.
            out = (title, thumbnail, transcription, Some ''transcription.txt'') \<longrightarrow>
            files w1 ?out \<noteq> None \<longrightarrow> files w1 ?out = Some transcription"
        by simp
      from a b c show ?thesis by (intro conjI disjI1)
    next
      case True
      then obtain path where a: "a = Some path" and path: "path \<noteq> []"
        by (auto simp: truthy_def split: option.splits)
      let ?e = "dir_entry c path"
      obtain rt wt where T: "transcribe_audio c path msize lang (?p50 wd) = (rt, wt)" by fastforce
      obtain rt' wt' where T': "transcribe_audio c path msize lang (?p50 wd') = (rt', wt')" by fastforce
      show ?thesis
      proof (cases rt)
        case (Inl x)
        with D Inr info a path T assms(2) show ?thesis
          by (simp add: get_video_info_and_transcribe_def truthy_def)
      next
        case (Inr transcription)
        note rt = this
        obtain rs ws where S: "save_and_clean_up c path transcription wt = (rs, ws)" by fastforce
        have 1: "get_video_info_and_transcribe c url msize lang w =
            (case save_and_clean_up c path transcription wt of
               (Inl x, w3) \<Rightarrow> (Inl x, w3)
             | (Inr transcription_file, w3) \<Rightarrow>
                 (Inr (title, thumbnail, transcription, Some transcription_file),
                  progress 100 ''Done'' w3))"
          using D \<open>rd = Inr info\<close> info a T rt by (intro run_audio [OF _ path]) simp_all
        from 1 S assms(2) obtain f where rs: "rs = Inr f"
          by (cases rs) simp_all
        note sv = save_Inr [OF S [unfolded rs]]
        from sv have f: "f = ''transcription.txt''"
          and wt: "writable c ''transcription.txt'' transcription"
          and nd: "\<not> is_dir c ?e"
          and ws: "ws = wt\<lparr>files := ((files wt)(?out \<mapsto> transcription))(?e := None)\<rparr>"
          by simp_all
        from 1 S rs f assms(2)
        have out: "out = (title, thumbnail, transcription, Some ''transcription.txt'')"
          and w1: "w1 = progress 100 ''Done'' ws"
          by simp_all
        have first: "files w1 ?out = (if ?e = ?out then None else Some transcription)"
          unfolding w1 ws by simp
        have "models (?p50 wd') = models (snd (transcribe_audio c path msize lang (?p50 wd)))"
          using wd'_models w1 ws T by (simp add: world_steps)
        from ta_det [OF assms(1) this] T T' rt have rt': "rt' = Inr transcription" by simp
        have 2: "get_video_info_and_transcribe c url msize lang w1 =
            (case save_and_clean_up c path transcription wt' of
               (Inl x, w3) \<Rightarrow> (Inl x, w3)
             | (Inr transcription_file, w3) \<Rightarrow>
                 (Inr (title, thumbnail, transcription, Some transcription_file),
                  progress 100 ''Done'' w3))"
          using D' rd' \<open>rd = Inr info\<close> info a T' rt' by (intro run_audio [OF _ path]) simp_all
        have third: "\<forall>title thumbnail transcription.
            out = (title, thumbnail, transcription, Some ''transcription.txt'') \<longrightarrow>
            files w1 ?out \<noteq> None \<longrightarrow> files w1 ?out = Some transcription"
          using out first by (simp split: if_splits)
        let ?run2 = "get_video_info_and_transcribe c url msize lang w1"
        from save_cases [OF wt nd, of wt'] show ?thesis
        proof (elim disjE exE conjE)
          assume s2: "save_and_clean_up c path transcription wt' =
            (Inr ''transcription.txt'',
             wt'\<lparr>files := ((files wt')(?out \<mapsto> transcription))(?e := None)\<rparr>)"
          from 2 s2 out have "fst ?run2 = Inr out"
            by simp
          then have a: "fst ?run2 = Inr out \<or>
              (\<exists>p e. remove_error c p = Some e \<and> fst ?run2 = Inl (Exception e))"
            by (rule disjI1)
          from 2 s2 first have "files (snd ?run2) ?out = files w1 ?out"
            by simp
          then have b: "snd (snd (snd out)) \<noteq> None \<or> leaves_output_file c \<longrightarrow>
              files (snd ?run2) ?out = files w1 ?out"
            by (rule impI)
          from a b third show ?thesis by (intro conjI)
        next
          fix e assume e: "remove_error c ?e = Some e" and ne: "?e \<noteq> ?out"
            and s2: "save_and_clean_up c path transcription wt' =
              (Inl (Exception e), wt'\<lparr>files := (files wt')(?out \<mapsto> transcription)\<rparr>)"
          from 2 s2 have "fst ?run2 = Inl (Exception e)"
            by simp
          with e have "\<exists>p e. remove_error c p = Some e \<and> fst ?run2 = Inl (Exception e)"
            by blast
          then have a: "fst ?run2 = Inr out \<or>
              (\<exists>p e. remove_error c p = Some e \<and> fst ?run2 = Inl (Exception e))"
            by (rule disjI2)
          from 2 s2 first ne have "files (snd ?run2) ?out = files w1 ?out"
            by simp
          then have b: "snd (snd (snd out)) \<noteq> None \<or> leaves_output_file c \<longrightarrow>
              files (snd ?run2) ?out = files w1 ?out"
            by (rule impI)
          from a b third show ?thesis by (intro conjI)
        next
          fix e assume e: "remove_error c ?e = Some e" and eq: "?e = ?out"
          from save_Inr_removable [OF S [unfolded rs] eq] e have False
            by (simp add: removable_def)
          then show ?thesis by (rule FalseE)
        qed
      qed
    qed
  qed
qed

text \<open>
  The theorem at work: two runs on the stub collaborators from an empty process, and two
  runs with a download that raises, from a process where an older output file exists.
\<close>

theorem rerun_same_file_content_witness:
  "deterministic (stub ''audio.mp3'') \<and>
   fst (get_video_info_and_transcribe (stub ''audio.mp3'') good_url ''base'' None w0)
     = Inr (Some ''Title'', Some ''thumb.jpg'', ''hello'', Some ''transcription.txt'') \<and>
   files (snd (get_video_info_and_transcribe (stub ''audio.mp3'') good_url ''base'' None w0))
     ''transcription.txt'' = Some ''hello'' \<and>
   fst (get_video_info_and_transcribe (stub ''audio.mp3'') good_url ''base'' None
         (snd (get_video_info_and_transcribe (stub ''audio.mp3'') good_url ''base'' None w0)))
     = Inr (Some ''Title'', Some ''thumb.jpg'', ''hello'', Some ''transcription.txt'') \<and>
   files (snd (get_video_info_and_transcribe (stub ''audio.mp3'') good_url ''base'' None
         (snd (get_video_info_and_transcribe (stub ''audio.mp3'') good_url ''base'' None w0))))
     ''transcription.txt'' = Some ''hello'' \<and>
   deterministic stub_download_raises \<and> leaves_output_file stub_download_raises \<and>
   files (snd (get_video_info_and_transcribe stub_download_raises good_url ''base'' None
         (snd (get_video_info_and_transcribe stub_download_raises good_url ''base'' None
            (w0\<lparr>files := [''transcription.txt'' \<mapsto> ''old'']\<rparr>)))))
     ''transcription.txt'' = Some ''old''"
proof -
  have h: "deterministic (stub ''audio.mp3'')"
    by (simp add: deterministic_def stub_def)
  have e: "dir_entry (stub ''audio.mp3'') ''transcription.txt'' = ''transcription.txt''"
    "dir_entry stub_download_raises ''transcription.txt'' = ''transcription.txt''"
    "\<And>p. remove_error (stub ''audio.mp3'') p = None"
    by (simp_all add: stub_download_raises_def stub_def)
  have r: "fst (get_video_info_and_transcribe (stub ''audio.mp3'') good_url ''base'' None w0)
     = Inr (Some ''Title'', Some ''thumb.jpg'', ''hello'', Some ''transcription.txt'')"
    by (simp add: run_defs good_url_valid stub_def w0_def)
  then have t: "get_video_info_and_transcribe (stub ''audio.mp3'') good_url ''base'' None w0
     = (Inr (Some ''Title'', Some ''thumb.jpg'', ''hello'', Some ''transcription.txt''),
        snd (get_video_info_and_transcribe (stub ''audio.mp3'') good_url ''base'' None w0))"
    by (simp add: prod_eq_iff)
  have f: "files (snd (get_video_info_and_transcribe (stub ''audio.mp3'') good_url ''base'' None w0))
     ''transcription.txt'' = Some ''hello''"
    by (simp add: run_defs good_url_valid stub_def w0_def)
  let ?w = "w0\<lparr>files := [''transcription.txt'' \<mapsto> ''old'']\<rparr>"
  have h': "deterministic stub_download_raises" "leaves_output_file stub_download_raises"
    by (simp_all add: deterministic_def leaves_output_file_def stub_download_raises_def stub_def)
  have r': "fst (get_video_info_and_transcribe stub_download_raises good_url ''base'' None ?w)
     = Inr (Some ''An error occurred while downloading the video.'', None, '''', None)"
    by (simp add: run_defs good_url_valid stub_download_raises_def stub_def w0_def)
  then have t': "get_video_info_and_transcribe stub_download_raises good_url ''base'' None ?w
     = (Inr (Some ''An error occurred while downloading the video.'', None, '''', None),
        snd (get_video_info_and_transcribe stub_download_raises good_url ''base'' None ?w))"
    by (simp add: prod_eq_iff)
  have f': "files (snd (get_video_info_and_transcribe stub_download_raises good_url ''base'' None ?w))
     ''transcription.txt'' = Some ''old''"
    by (simp add: run_defs good_url_valid stub_download_raises_def stub_def w0_def)
  from rerun_same_file_content [OF h t] f
  have a: "fst (get_video_info_and_transcribe (stub ''audio.mp3'') good_url ''base'' None
         (snd (get_video_info_and_transcribe (stub ''audio.mp3'') good_url ''base'' None w0)))
     = Inr (Some ''Title'', Some ''thumb.jpg'', ''hello'', Some ''transcription.txt'')"
    "files (snd (get_video_info_and_transcribe (stub ''audio.mp3'') good_url ''base'' None
         (snd (get_video_info_and_transcribe (stub ''audio.mp3'') good_url ''base'' None w0))))
     ''transcription.txt'' = Some ''hello''"
    unfolding e by simp_all
  from rerun_same_file_content [OF h'(1) t'] h'(2) f'
  have b: "files (snd (get_video_info_and_transcribe stub_download_raises good_url ''base'' None
         (snd (get_video_info_and_transcribe stub_download_raises good_url ''base'' None ?w))))
     ''transcription.txt'' = Some ''old''"
    unfolding e by simp
  from h r f a h' b show ?thesis by (intro conjI)
qed

text \<open>
  The second run can be stopped where the first was not: here the download leaves the
  audio file only once \<^verbatim>\<open>transcription.txt\<close> exists, and the system refuses to remove it.
  The first run returns; the second raises after it has written the same text again.
\<close>

lemma second_run_stopped_by_refused_removal:
  "fst (get_video_info_and_transcribe stub_audio_on_rerun good_url ''base'' None w0)
     = Inr (Some ''Title'', Some ''thumb.jpg'', ''hello'', Some ''transcription.txt'') \<and>
   files (snd (get_video_info_and_transcribe stub_audio_on_rerun good_url ''base'' None w0))
     ''transcription.txt'' = Some ''hello'' \<and>
   fst (get_video_info_and_transcribe stub_audio_on_rerun good_url ''base'' None
         (snd (get_video_info_and_transcribe stub_audio_on_rerun good_url ''base'' None w0)))
     = Inl (Exception (permission_denied ''audio.mp3'')) \<and>
   files (snd (get_video_info_and_transcribe stub_audio_on_rerun good_url ''base'' None
         (snd (get_video_info_and_transcribe stub_audio_on_rerun good_url ''base'' None w0))))
     ''transcription.txt'' = Some ''hello''"
  by (simp add: run_defs good_url_valid stub_audio_on_rerun_def stub_unremovable_def permission_denied_def stub_def w0_def)

subsection \<open>The language hint\<close>



subsection \<open>A transcription that fails\<close>




end
